theory Spec2Isabelle
  imports Main "HOL-Library.Word"
begin

section \<open>JavaScript numbers\<close>

text \<open>
  The client code of \<^verbatim>\<open>src/client/sum.ts\<close> adds values of TypeScript's type
  \<^verbatim>\<open>number\<close>, which are IEEE 754 binary64 values. Every finite binary64 value is an
  integer multiple of \<open>2^-1074\<close>, so a finite value is kept as that integer: \<open>Fin k\<close>
  stands for \<open>k * 2^-1074\<close>, \<open>Fin 0\<close> is \<open>+0\<close> and \<open>NegZero\<close> is \<open>-0\<close>.
\<close>

datatype number = NaN | PosInf | NegInf | NegZero | Fin int

text \<open>The integer \<open>1\<close> counted in units of \<open>2^-1074\<close>.\<close>

definition unit_scale :: int where
  "unit_scale = 2 ^ 1074"

text \<open>The magnitude \<open>2^1024\<close>, the first one beyond the finite values, in the same units.\<close>

definition overflow_bound :: int where
  "overflow_bound = 2 ^ 2098"

text \<open>
  How many low bits a magnitude loses when it is cut to the 53 bits of a binary64
  significand.
\<close>

fun excess_bits :: "nat \<Rightarrow> nat" where
  "excess_bits n = (if n < 2 ^ 53 then 0 else Suc (excess_bits (n div 2)))"

declare excess_bits.simps [simp del]

text \<open>
  Rounding of a magnitude to 53 significant bits, to nearest, ties to the even
  significand (the only rounding mode of ECMAScript).
\<close>

definition round53 :: "nat \<Rightarrow> nat" where
  "round53 n =
     (let s = excess_bits n;
          q = n div 2 ^ s;
          r = n mod 2 ^ s
      in if 2 * r > 2 ^ s \<or> (2 * r = 2 ^ s \<and> odd q) then (q + 1) * 2 ^ s else q * 2 ^ s)"

text \<open>
  The binary64 value of an exact result \<open>z\<close> (in units of \<open>2^-1074\<close>): rounded, and
  infinite when the rounded magnitude reaches \<open>2^1024\<close>. An exact zero is \<open>+0\<close>.
\<close>

definition round_num :: "int \<Rightarrow> number" where
  "round_num z =
     (let m = int (round53 (nat \<bar>z\<bar>))
      in if m \<ge> overflow_bound then (if z < 0 then NegInf else PosInf)
         else Fin (if z < 0 then - m else m))"

text \<open>The value of an integer literal of the source text.\<close>

definition num_of_int :: "int \<Rightarrow> number" where
  "num_of_int n = round_num (n * unit_scale)"

text \<open>The operator \<^verbatim>\<open>+\<close> on two numbers.\<close>

fun num_add :: "number \<Rightarrow> number \<Rightarrow> number" where
  "num_add NaN _ = NaN"
| "num_add _ NaN = NaN"
| "num_add PosInf NegInf = NaN"
| "num_add NegInf PosInf = NaN"
| "num_add PosInf _ = PosInf"
| "num_add _ PosInf = PosInf"
| "num_add NegInf _ = NegInf"
| "num_add _ NegInf = NegInf"
| "num_add NegZero NegZero = NegZero"
| "num_add NegZero (Fin b) = Fin b"
| "num_add (Fin a) NegZero = Fin a"
| "num_add (Fin a) (Fin b) = round_num (a + b)"

text \<open>The comparison \<^verbatim>\<open>==\<close> on two numbers: \<open>NaN\<close> equals nothing, the two zeros are equal.\<close>

fun num_eq :: "number \<Rightarrow> number \<Rightarrow> bool" where
  "num_eq NaN _ = False"
| "num_eq _ NaN = False"
| "num_eq NegZero (Fin b) = (b = 0)"
| "num_eq (Fin a) NegZero = (a = 0)"
| "num_eq a b = (a = b)"

text \<open>
  Which integers \<open>k\<close> are binary64 values \<open>Fin k\<close>: the magnitude has at most 53
  significant bits and is below the overflow bound.
\<close>

fun fits53 :: "nat \<Rightarrow> bool" where
  "fits53 n = (if n < 2 ^ 53 then True else even n \<and> fits53 (n div 2))"

declare fits53.simps [simp del]

fun is_double :: "number \<Rightarrow> bool" where
  "is_double (Fin k) = (fits53 (nat \<bar>k\<bar>) \<and> \<bar>k\<bar> < overflow_bound)"
| "is_double _ = True"

section \<open>The client functions\<close>

text \<open>
  \<^verbatim>\<open>Array.prototype.reduce\<close> with an initial value, on a dense array: the callback is
  applied to the accumulator and each element, from index 0 upwards.
\<close>

fun reduce :: "('b \<Rightarrow> 'a \<Rightarrow> 'b) \<Rightarrow> 'a list \<Rightarrow> 'b \<Rightarrow> 'b" where
  "reduce f [] acc = acc"
| "reduce f (x # xs) acc = reduce f xs (f acc x)"

text \<open>\<^verbatim>\<open>sum(...args) = args.reduce((a, b) => a + b, 0)\<close>\<close>

definition sum_num :: "number list \<Rightarrow> number" where
  "sum_num args = reduce (\<lambda>a b. num_add a b) args (Fin 0)"

section \<open>JavaScript strings\<close>

text \<open>A string is a sequence of 16-bit code units (UTF-16).\<close>

type_synonym js_string = "16 word list"

text \<open>A string literal of the source text whose characters are all ASCII.\<close>

definition js :: "string \<Rightarrow> js_string" where
  "js s = map of_char s"

definition is_lead :: "16 word \<Rightarrow> bool" where
  "is_lead u \<longleftrightarrow> 0xD800 \<le> u \<and> u \<le> 0xDBFF"

definition is_trail :: "16 word \<Rightarrow> bool" where
  "is_trail u \<longleftrightarrow> 0xDC00 \<le> u \<and> u \<le> 0xDFFF"

definition is_surrogate :: "16 word \<Rightarrow> bool" where
  "is_surrogate u \<longleftrightarrow> is_lead u \<or> is_trail u"

text \<open>
  The spread \<^verbatim>\<open>[...str]\<close> runs the string iterator: it yields one string per code point,
  two code units long for a leading surrogate followed by a trailing one, one code unit
  long otherwise (also for a surrogate that stands alone).
\<close>

fun spread :: "js_string \<Rightarrow> js_string list" where
  "spread [] = []"
| "spread [u] = [[u]]"
| "spread (u # v # rest) =
     (if is_lead u \<and> is_trail v then [u, v] # spread rest else [u] # spread (v # rest))"

text \<open>
  \<^verbatim>\<open>charCodeAt(pos)\<close> is the code unit at \<open>pos\<close> as a number, and \<open>NaN\<close> (here \<open>None\<close>)
  when \<open>pos\<close> is out of range. Code units and their successors are integers up to
  \<open>65536\<close>, which binary64 represents and adds exactly (lemma \<open>char_code_succ_exact\<close>
  below), so these numbers are kept as \<open>int\<close>.
\<close>

definition charCodeAt :: "js_string \<Rightarrow> nat \<Rightarrow> int option" where
  "charCodeAt s pos = (if pos < length s then Some (uint (s ! pos)) else None)"

text \<open>
  \<^verbatim>\<open>String.fromCharCode(n)\<close> with one argument: the string of the single code unit
  \<open>ToUint16(n)\<close>, which is \<open>n\<close> modulo \<open>2^16\<close>, and \<open>0\<close> for \<open>NaN\<close>.
\<close>

definition fromCharCode :: "int option \<Rightarrow> js_string" where
  "fromCharCode n = (case n of None \<Rightarrow> [0] | Some k \<Rightarrow> [word_of_int (k mod 65536)])"

text \<open>\<^verbatim>\<open>join(sep)\<close> on an array of strings.\<close>

fun join :: "js_string \<Rightarrow> js_string list \<Rightarrow> js_string" where
  "join sep [] = []"
| "join sep [x] = x"
| "join sep (x # y # ys) = x @ sep @ join sep (y # ys)"

text \<open>The callback \<^verbatim>\<open>(e) => String.fromCharCode(e.charCodeAt(0) + 1)\<close>.\<close>

definition shift_callback :: "js_string \<Rightarrow> js_string" where
  "shift_callback e = fromCharCode (map_option (\<lambda>c. c + 1) (charCodeAt e 0))"

text \<open>\<^verbatim>\<open>shift(str) = [...str].map(e => String.fromCharCode(e.charCodeAt(0) + 1)).join("")\<close>\<close>

definition shift :: "js_string \<Rightarrow> js_string" where
  "shift str = join [] (map shift_callback (spread str))"

text \<open>
  The notions the specification measures \<open>shift\<close> with. The code point of an iterated
  element (\<^verbatim>\<open>codePointAt(0)\<close>), the code points of a string, its length counted in code
  points, and well-formedness: no surrogate stands alone, so that every code point is a
  Unicode scalar value.
\<close>

definition code_point :: "js_string \<Rightarrow> nat" where
  "code_point e =
     (case e of
        [] \<Rightarrow> 0
      | [u] \<Rightarrow> unat u
      | u # v # _ \<Rightarrow>
          if is_lead u \<and> is_trail v
          then 0x10000 + (unat u - 0xD800) * 0x400 + (unat v - 0xDC00)
          else unat u)"

definition code_points :: "js_string \<Rightarrow> nat list" where
  "code_points s = map code_point (spread s)"

definition cp_length :: "js_string \<Rightarrow> nat" where
  "cp_length s = length (spread s)"

definition well_formed :: "js_string \<Rightarrow> bool" where
  "well_formed s = list_all (\<lambda>e. length e = 2 \<or> \<not> is_surrogate (hd e)) (spread s)"

section \<open>The page server\<close>

text \<open>
  The server file builds an Express application: the logger \<^verbatim>\<open>morgan("dev")\<close>, the static
  middleware mounted at \<^verbatim>\<open>/public\<close>, and the route \<^verbatim>\<open>app.get("*", ...)\<close>. The model keeps
  the stack of layers in the order of the source and runs a request through it the way
  the router of Express 4 does (the version whose routes accept the pattern \<^verbatim>\<open>*\<close>); the
  behaviour of the library's own functions follows its documentation.
\<close>

datatype http_method = GET | HEAD | POST | PUT | DELETE | PATCH | OPTIONS

text \<open>A request: its method and the path of its URL (without the query string).\<close>

record request =
  req_method :: http_method
  req_path :: string

text \<open>
  What lies outside the source text is a parameter of the model: the directory
  \<^verbatim>\<open>join(__dirname, "public")\<close> as the static middleware sees it at a relative URL path
  (a regular file it may send, a directory, or nothing it can serve), the value of the
  \<^verbatim>\<open>Content-Type\<close> header it derives from a file name, the outcome of \<^verbatim>\<open>ejs.renderFile\<close> for a view name and the
  template variables passed by the caller (the document, or a failure), and whether
  \<^verbatim>\<open>decodeURIComponent\<close> accepts a path.
\<close>

datatype fs_entry = File "8 word list" | Directory | Missing

record environment =
  public_dir :: "string \<Rightarrow> fs_entry"
  mime_type :: "string \<Rightarrow> string"
  render_file :: "string \<Rightarrow> (string \<times> string) list \<Rightarrow> string option"
  uri_decodes :: "string \<Rightarrow> bool"

text \<open>
  The responses the application can give: a file sent by the static middleware, its
  redirect of a directory to the path with a trailing slash, a document sent by
  \<^verbatim>\<open>res.render\<close>, the router's automatic answer to \<^verbatim>\<open>OPTIONS\<close>, and the page of the final
  handler for a request that no layer answered or that failed. For a \<^verbatim>\<open>HEAD\<close> request the
  body is not transmitted.
\<close>

datatype response =
    SentFile string "8 word list"
  | Redirected string
  | SentHtml string
  | SentAllow "http_method list"
  | ErrorPage nat

fun status_code :: "response \<Rightarrow> nat" where
  "status_code (SentFile _ _) = 200"
| "status_code (Redirected _) = 301"
| "status_code (SentHtml _) = 200"
| "status_code (SentAllow _) = 200"
| "status_code (ErrorPage n) = n"

text \<open>
  The \<^verbatim>\<open>Content-Type\<close> header of a response. \<^verbatim>\<open>res.render\<close> passes the document to
  \<^verbatim>\<open>res.send\<close>, which sends a string as \<^verbatim>\<open>text/html\<close> with the character set
  \<^verbatim>\<open>utf-8\<close>, as it does for the answer to \<^verbatim>\<open>OPTIONS\<close>; the final handler sets the same
  value, and the static middleware's redirect writes the character set in capitals.
\<close>

fun content_type :: "environment \<Rightarrow> response \<Rightarrow> string" where
  "content_type env (SentFile name _) = mime_type env name"
| "content_type env (Redirected _) = ''text/html; charset=UTF-8''"
| "content_type env (SentHtml _) = ''text/html; charset=utf-8''"
| "content_type env (SentAllow _) = ''text/html; charset=utf-8''"
| "content_type env (ErrorPage _) = ''text/html; charset=utf-8''"

text \<open>
  What a layer does with a request: it responds, it calls \<^verbatim>\<open>next()\<close> (a route that matches
  the path but not the method \<^verbatim>\<open>OPTIONS\<close> also reports the methods it has), or it calls
  \<^verbatim>\<open>next(err)\<close> with the status of the error.
\<close>

datatype step = Respond response | Pass "http_method list" | Fail nat

type_synonym layer = "environment \<Rightarrow> request \<Rightarrow> step"

text \<open>
  The router. No layer of this application handles errors, so an error goes to the final
  handler, as does a request that ran through the whole stack.
\<close>

fun run_stack :: "layer list \<Rightarrow> environment \<Rightarrow> request \<Rightarrow> http_method list \<Rightarrow> response" where
  "run_stack [] env req allowed =
     (if req_method req = OPTIONS \<and> allowed \<noteq> [] then SentAllow allowed else ErrorPage 404)"
| "run_stack (l # ls) env req allowed =
     (case l env req of
        Respond r \<Rightarrow> r
      | Pass ms \<Rightarrow> run_stack ls env req (allowed @ ms)
      | Fail status \<Rightarrow> ErrorPage status)"

text \<open>\<^verbatim>\<open>morgan("dev")\<close> writes a log line and calls \<^verbatim>\<open>next()\<close>.\<close>

definition morgan_dev :: layer where
  "morgan_dev env req = Pass []"

text \<open>
  \<^verbatim>\<open>app.use(prefix, ...)\<close>: the layer applies to a path that starts with the prefix, in
  any letter case, up to the end of the path or a \<^verbatim>\<open>/\<close>; the middleware sees the rest.
  Letter case is ignored by comparing character codes with \<open>A\<close> to \<open>Z\<close> moved to
  \<open>a\<close> to \<open>z\<close>.
\<close>

definition lower :: "char \<Rightarrow> nat" where
  "lower c = (let n = of_char c in if 65 \<le> n \<and> n \<le> 90 then n + 32 else n)"

definition mounted_at :: "string \<Rightarrow> string \<Rightarrow> string option" where
  "mounted_at prefix path =
     (let n = length prefix
      in if map lower (take n path) = map lower prefix
            \<and> (length path \<le> n \<or> path ! n = CHR ''/'')
         then Some (drop n path) else None)"

definition ends_with_slash :: "string \<Rightarrow> bool" where
  "ends_with_slash p \<longleftrightarrow> p \<noteq> [] \<and> last p = CHR ''/''"

text \<open>
  \<^verbatim>\<open>express.static(root)\<close> with its default options, at the relative path \<open>rel\<close>. Only
  \<^verbatim>\<open>GET\<close> and \<^verbatim>\<open>HEAD\<close> are served. A path with a trailing slash is looked up as
  \<^verbatim>\<open>index.html\<close> below it; a directory named without the slash is redirected to the
  request path with the slash; whatever cannot be served falls through to \<^verbatim>\<open>next()\<close>.
\<close>

definition express_static :: "string \<Rightarrow> layer" where
  "express_static rel env req =
     (if req_method req \<noteq> GET \<and> req_method req \<noteq> HEAD then Pass []
      else if ends_with_slash rel then
        (case public_dir env (rel @ ''index.html'') of
           File bytes \<Rightarrow> Respond (SentFile (rel @ ''index.html'') bytes)
         | _ \<Rightarrow> Pass [])
      else
        (case public_dir env rel of
           File bytes \<Rightarrow> Respond (SentFile rel bytes)
         | Directory \<Rightarrow> Respond (Redirected (req_path req @ ''/''))
         | Missing \<Rightarrow> Pass []))"

text \<open>\<^verbatim>\<open>app.use("/public", express.static(join(__dirname, "public")))\<close>\<close>

definition use_public :: layer where
  "use_public env req =
     (case mounted_at ''/public'' (req_path req) of
        None \<Rightarrow> Pass []
      | Some rel \<Rightarrow> express_static rel env req)"

text \<open>The handler \<^verbatim>\<open>(req, res) => { res.render("index"); }\<close>\<close>

definition serveCatchAll :: layer where
  "serveCatchAll env req =
     (case render_file env ''index'' [] of
        Some html \<Rightarrow> Respond (SentHtml html)
      | None \<Rightarrow> Fail 500)"

text \<open>
  \<^verbatim>\<open>app.get("*", handler)\<close>: the pattern matches every path and captures it as a
  parameter, which is decoded (a path that does not decode is a bad request); the route
  has the method \<^verbatim>\<open>GET\<close>, which also serves \<^verbatim>\<open>HEAD\<close>.
\<close>

definition get_star :: "layer \<Rightarrow> layer" where
  "get_star handler env req =
     (if \<not> uri_decodes env (req_path req) then Fail 400
      else if req_method req = GET \<or> req_method req = HEAD then handler env req
      else if req_method req = OPTIONS then Pass [GET, HEAD]
      else Pass [])"

text \<open>The application, and its answer to a request.\<close>

definition app :: "layer list" where
  "app = [morgan_dev, use_public, get_star serveCatchAll]"

definition handle :: "environment \<Rightarrow> request \<Rightarrow> response" where
  "handle env req = run_stack app env req []"

text \<open>
  An environment for concrete requests: the static directory holds the one file
  \<^verbatim>\<open>app.js\<close>, and the view \<^verbatim>\<open>index\<close> renders to a document with the mount element.
\<close>

definition demo_env :: environment where
  "demo_env =
     \<lparr>public_dir = (\<lambda>p. if p = ''/app.js'' then File [0x2F, 0x2F]
                         else if p = '''' \<or> p = ''/'' then Directory else Missing),
      mime_type = (\<lambda>p. ''application/javascript''),
      render_file = (\<lambda>name vars. if name = ''index'' \<and> vars = []
                                  then Some ''<div id=app></div>'' else None),
      uri_decodes = (\<lambda>p. True)\<rparr>"

section \<open>The client bootstrap\<close>

text \<open>
  The page as the script sees it: a tree of elements (tag name, \<^verbatim>\<open>id\<close> attribute,
  children) and text nodes.
\<close>

datatype node = Element string "string option" "node list" | Text js_string

text \<open>\<^verbatim>\<open>$("<p>")\<close> creates an element outside the page, without attributes or children.\<close>

definition create_element :: "string \<Rightarrow> node" where
  "create_element tag = Element tag None []"

text \<open>
  \<^verbatim>\<open>.text(str)\<close> replaces the children of the element by the text: one text node, or
  none for the empty string.
\<close>

fun set_text :: "node \<Rightarrow> js_string \<Rightarrow> node" where
  "set_text (Element tag eid cs) str = Element tag eid (if str = [] then [] else [Text str])"
| "set_text (Text t) str = Text t"

text \<open>
  \<^verbatim>\<open>$("#app")\<close> selects the first element of the page, in document order, whose \<^verbatim>\<open>id\<close>
  is \<^verbatim>\<open>app\<close>, or nothing; \<^verbatim>\<open>.append(el)\<close> makes \<open>el\<close> the last child of the selected
  element. \<open>append_in\<close> returns the changed tree, and \<open>None\<close> when no element has the
  \<^verbatim>\<open>id\<close>; then the page stays as it is.
\<close>

fun append_in :: "string \<Rightarrow> node \<Rightarrow> node \<Rightarrow> node option"
  and append_in_list :: "string \<Rightarrow> node \<Rightarrow> node list \<Rightarrow> node list option" where
  "append_in i new (Text t) = None"
| "append_in i new (Element tag eid cs) =
     (if eid = Some i then Some (Element tag eid (cs @ [new]))
      else map_option (Element tag eid) (append_in_list i new cs))"
| "append_in_list i new [] = None"
| "append_in_list i new (c # cs) =
     (case append_in i new c of
        Some c' \<Rightarrow> Some (c' # cs)
      | None \<Rightarrow> map_option ((#) c) (append_in_list i new cs))"

definition append_by_id :: "string \<Rightarrow> node \<Rightarrow> node \<Rightarrow> node" where
  "append_by_id i new page = (case append_in i new page of Some page' \<Rightarrow> page' | None \<Rightarrow> page)"

text \<open>The children of the element that \<^verbatim>\<open>$("#" + i)\<close> selects.\<close>

fun children_by_id :: "string \<Rightarrow> node \<Rightarrow> node list option"
  and children_by_id_list :: "string \<Rightarrow> node list \<Rightarrow> node list option" where
  "children_by_id i (Text t) = None"
| "children_by_id i (Element tag eid cs) =
     (if eid = Some i then Some cs else children_by_id_list i cs)"
| "children_by_id_list i [] = None"
| "children_by_id_list i (c # cs) =
     (case children_by_id i c of
        Some found \<Rightarrow> Some found
      | None \<Rightarrow> children_by_id_list i cs)"

text \<open>
  The constants of \<^verbatim>\<open>src/client/index.ts\<close>. The conversion of a number to a string, used
  by the template literals and by \<^verbatim>\<open>numArr.join(" + ")\<close>, is a parameter \<open>to_string\<close>.
\<close>

definition shiftText :: js_string where
  "shiftText = js ''Hello, World!''"

definition shiftElement :: node where
  "shiftElement =
     set_text (create_element ''p'') (shiftText @ js '' shifts to '' @ shift shiftText)"

definition numArr :: "number list" where
  "numArr = map num_of_int [12, 24, 5, 7, 8, 9, 5, 4, 345, 6, 7, 2, 1, 89381759823749183247]"

definition sumElement :: "(number \<Rightarrow> js_string) \<Rightarrow> node" where
  "sumElement to_string =
     set_text (create_element ''p'')
       (js ''The sum of \"'' @ join (js '' + '') (map to_string numArr)
        @ js ''\" is '' @ to_string (sum_num numArr))"

text \<open>The two statements \<^verbatim>\<open>$("#app").append(shiftElement); $("#app").append(sumElement);\<close>\<close>

definition bootstrap :: "(number \<Rightarrow> js_string) \<Rightarrow> node \<Rightarrow> node" where
  "bootstrap to_string page =
     append_by_id ''app'' (sumElement to_string) (append_by_id ''app'' shiftElement page)"

text \<open>How many elements with a given tag name a tree holds.\<close>

fun count_tag :: "string \<Rightarrow> node \<Rightarrow> nat"
  and count_tag_list :: "string \<Rightarrow> node list \<Rightarrow> nat" where
  "count_tag t (Text s) = 0"
| "count_tag t (Element tag eid cs) = (if tag = t then 1 else 0) + count_tag_list t cs"
| "count_tag_list t [] = 0"
| "count_tag_list t (c # cs) = count_tag t c + count_tag_list t cs"

section \<open>Exact cases of the rounding\<close>

lemma fits53_dvd: "fits53 n \<Longrightarrow> 2 ^ excess_bits n dvd n"
proof (induction n rule: fits53.induct)
  case (1 n)
  show ?case
  proof (cases "n < 2 ^ 53")
    case True
    then show ?thesis by (simp add: excess_bits.simps)
  next
    case False
    with "1.prems" have ev: "even n" and f: "fits53 (n div 2)"
      by (simp_all add: fits53.simps [of n])
    from "1.IH" [OF False f] have "2 ^ excess_bits (n div 2) dvd n div 2" .
    then obtain k where k: "n div 2 = 2 ^ excess_bits (n div 2) * k" by (rule dvdE)
    from ev have "n = 2 * (n div 2)" by simp
    with k have "n = 2 ^ Suc (excess_bits (n div 2)) * k" by simp
    moreover have "excess_bits n = Suc (excess_bits (n div 2))"
      using False by (simp add: excess_bits.simps [of n])
    ultimately show ?thesis by (metis dvd_triv_left)
  qed
qed

lemma round53_exact: "fits53 n \<Longrightarrow> round53 n = n"
proof -
  assume "fits53 n"
  then have d: "2 ^ excess_bits n dvd n" by (rule fits53_dvd)
  then have "n mod 2 ^ excess_bits n = 0" by simp
  moreover from d have "n div 2 ^ excess_bits n * 2 ^ excess_bits n = n" by simp
  ultimately show ?thesis by (simp add: round53_def Let_def)
qed

lemma fits53_shift: "m < 2 ^ 53 \<Longrightarrow> fits53 (m * 2 ^ j)"
proof (induction j)
  case 0
  then show ?case by (simp add: fits53.simps)
next
  case (Suc j)
  have h: "(m * 2 ^ Suc j) div 2 = m * 2 ^ j" by simp
  have e: "even (m * 2 ^ Suc j)" by simp
  from Suc have "fits53 (m * 2 ^ j)" by simp
  with h have "fits53 ((m * 2 ^ Suc j) div 2)" by simp
  with e show ?case by (subst fits53.simps) simp
qed

lemma fits53_shift_le: "m \<le> 2 ^ 53 \<Longrightarrow> fits53 (m * 2 ^ j)"
proof (cases "m < 2 ^ 53")
  case True
  then show ?thesis by (rule fits53_shift)
next
  case False
  assume "m \<le> 2 ^ 53"
  with False have m: "m = 2 ^ 52 * 2" by simp
  have "fits53 (2 ^ 52 * 2 ^ Suc j)" by (rule fits53_shift) simp
  then show ?thesis unfolding m by (simp add: mult.assoc)
qed

lemma round_num_exact:
  assumes "fits53 (nat \<bar>k\<bar>)" and "\<bar>k\<bar> < overflow_bound"
  shows "round_num k = Fin k"
  using assms by (simp add: round_num_def round53_exact Let_def)

lemma overflow_bound_scale: "overflow_bound = 2 ^ 1024 * unit_scale"
  unfolding overflow_bound_def unit_scale_def power_add [symmetric] by simp

lemma unit_scale_pos: "0 < unit_scale"
  unfolding unit_scale_def by (rule zero_less_power) simp

lemma nat_abs_scale: "nat \<bar>n * unit_scale\<bar> = nat \<bar>n\<bar> * 2 ^ 1074"
  unfolding unit_scale_def abs_mult by (simp only: nat_mult_distrib abs_ge_zero) simp

lemma excess_bits_scale: "2 ^ 53 \<le> n \<Longrightarrow> excess_bits (n * 2 ^ j) = excess_bits n + j"
proof (induction j)
  case 0
  then show ?case by simp
next
  case (Suc j)
  have "n \<le> n * 2 ^ Suc j" by simp
  with Suc.prems have "2 ^ 53 \<le> n * 2 ^ Suc j" by (rule le_trans)
  then have "\<not> n * 2 ^ Suc j < 2 ^ 53" by (simp only: not_less)
  then have "excess_bits (n * 2 ^ Suc j) = Suc (excess_bits ((n * 2 ^ Suc j) div 2))"
    by (subst excess_bits.simps) (simp only: if_False)
  also have "(n * 2 ^ Suc j) div 2 = n * 2 ^ j" by simp
  finally show ?case using Suc by simp
qed

lemma round53_scale: "round53 (n * 2 ^ j) = round53 n * 2 ^ j"
proof (cases "n < 2 ^ 53")
  case True
  then have "fits53 n" by (simp add: fits53.simps)
  moreover from True have "fits53 (n * 2 ^ j)" by (rule fits53_shift)
  ultimately show ?thesis by (simp add: round53_exact)
next
  case False
  define s where "s = excess_bits n"
  define q where "q = n div 2 ^ s"
  define r where "r = n mod 2 ^ s"
  from False have e: "excess_bits (n * 2 ^ j) = s + j"
    by (simp add: excess_bits_scale s_def)
  have q': "(n * 2 ^ j) div 2 ^ (s + j) = q"
    by (simp add: power_add q_def)
  have r': "(n * 2 ^ j) mod 2 ^ (s + j) = r * 2 ^ j"
    by (simp add: power_add r_def)
  have c1: "2 * (r * 2 ^ j) > 2 ^ (s + j) \<longleftrightarrow> 2 * r > 2 ^ s"
    by (simp add: power_add)
  have c2: "2 * (r * 2 ^ j) = 2 ^ (s + j) \<longleftrightarrow> 2 * r = 2 ^ s"
    by (simp add: power_add)
  have a1: "(q + 1) * 2 ^ (s + j) = (q + 1) * 2 ^ s * 2 ^ j"
    by (simp only: power_add mult.assoc)
  have a2: "q * 2 ^ (s + j) = q * 2 ^ s * 2 ^ j"
    by (simp only: power_add mult.assoc)
  have lhs: "round53 (n * 2 ^ j) =
      (if 2 * r > 2 ^ s \<or> (2 * r = 2 ^ s \<and> odd q) then (q + 1) * 2 ^ s * 2 ^ j else q * 2 ^ s * 2 ^ j)"
    unfolding round53_def Let_def e q' r' c1 c2 a1 a2 ..
  have rhs: "round53 n = (if 2 * r > 2 ^ s \<or> (2 * r = 2 ^ s \<and> odd q) then (q + 1) * 2 ^ s else q * 2 ^ s)"
    unfolding round53_def Let_def s_def [symmetric] q_def [symmetric] r_def [symmetric] ..
  show ?thesis unfolding lhs rhs by (simp only: if_distrib [of "\<lambda>x. x * 2 ^ j"])
qed

lemma num_of_int_eval:
  assumes "0 \<le> n" and "int (round53 (nat n)) < 2 ^ 1024"
  shows "num_of_int n = Fin (int (round53 (nat n)) * unit_scale)"
proof -
  from assms(1) have an: "\<bar>n\<bar> = n" by simp
  have "round53 (nat \<bar>n * unit_scale\<bar>) = round53 (nat n) * 2 ^ 1074"
    unfolding nat_abs_scale an by (rule round53_scale)
  then have m: "int (round53 (nat \<bar>n * unit_scale\<bar>)) = int (round53 (nat n)) * unit_scale"
    unfolding unit_scale_def by simp
  from assms(2) unit_scale_pos
  have "int (round53 (nat n)) * unit_scale < 2 ^ 1024 * unit_scale"
    by (simp only: mult_less_cancel_right_pos)
  then have b: "\<not> int (round53 (nat n)) * unit_scale \<ge> overflow_bound"
    unfolding overflow_bound_scale by (simp only: not_le)
  from assms(1) unit_scale_pos have z: "\<not> n * unit_scale < 0"
    by (simp add: mult_less_0_iff)
  show ?thesis
    unfolding num_of_int_def round_num_def Let_def m using b z
    by (simp only: if_False)
qed

lemma safe_int_bounds:
  assumes "\<bar>n\<bar> \<le> 2 ^ 53"
  shows "fits53 (nat \<bar>n * unit_scale\<bar>)" and "\<bar>n * unit_scale\<bar> < overflow_bound"
proof -
  from assms have "nat \<bar>n\<bar> \<le> 2 ^ 53" by simp
  then show "fits53 (nat \<bar>n * unit_scale\<bar>)"
    unfolding nat_abs_scale by (rule fits53_shift_le)
  have "\<bar>n * unit_scale\<bar> = \<bar>n\<bar> * unit_scale"
    using unit_scale_pos by (simp add: abs_mult)
  also have "\<dots> \<le> 2 ^ 53 * unit_scale"
    using assms unit_scale_pos by (simp only: mult_le_cancel_right_pos)
  also have "\<dots> < 2 ^ 1024 * unit_scale"
    using unit_scale_pos by (simp only: mult_less_cancel_right_pos) simp
  finally show "\<bar>n * unit_scale\<bar> < overflow_bound"
    unfolding overflow_bound_scale .
qed

lemma num_of_int_safe:
  assumes "\<bar>n\<bar> \<le> 2 ^ 53"
  shows "num_of_int n = Fin (n * unit_scale)"
  unfolding num_of_int_def using safe_int_bounds [OF assms] by (rule round_num_exact)

lemma is_double_of_int:
  assumes "\<bar>n\<bar> \<le> 2 ^ 53"
  shows "is_double (num_of_int n)"
  unfolding num_of_int_safe [OF assms] using safe_int_bounds [OF assms] by simp

lemma num_add_of_int:
  assumes "\<bar>a\<bar> \<le> 2 ^ 53" "\<bar>b\<bar> \<le> 2 ^ 53"
  shows "num_add (num_of_int a) (num_of_int b) = num_of_int (a + b)"
proof -
  have "num_add (num_of_int a) (num_of_int b) = round_num (a * unit_scale + b * unit_scale)"
    unfolding num_of_int_safe [OF assms(1)] num_of_int_safe [OF assms(2)] by simp
  also have "a * unit_scale + b * unit_scale = (a + b) * unit_scale"
    by (simp only: distrib_right)
  finally show ?thesis unfolding num_of_int_def .
qed

section \<open>Properties of \<open>sum\<close>\<close>

lemma reduce_foldl: "reduce f xs acc = foldl f acc xs"
  by (induction xs arbitrary: acc) simp_all

lemma reduce_add_safe:
  "\<bar>a\<bar> + (\<Sum>n\<leftarrow>ns. \<bar>n\<bar>) \<le> 2 ^ 53 \<Longrightarrow>
   reduce (\<lambda>x y. num_add x y) (map num_of_int ns) (num_of_int a) = num_of_int (a + sum_list ns)"
proof (induction ns arbitrary: a)
  case Nil
  then show ?case by simp
next
  case (Cons n ns)
  have nn: "0 \<le> (\<Sum>n\<leftarrow>ns. \<bar>n\<bar>)" by (rule sum_list_nonneg) auto
  from Cons.prems nn have b: "\<bar>a\<bar> \<le> 2 ^ 53" "\<bar>n\<bar> \<le> 2 ^ 53"
    by simp_all
  from Cons.prems have "\<bar>a + n\<bar> + (\<Sum>n\<leftarrow>ns. \<bar>n\<bar>) \<le> 2 ^ 53" by simp
  from Cons.IH [OF this] show ?case
    by (simp add: num_add_of_int [OF b] add.assoc)
qed

lemma num_of_int_0: "num_of_int 0 = Fin 0"
  using num_of_int_safe [of 0] by simp

lemma sum_num_safe:
  assumes "(\<Sum>n\<leftarrow>ns. \<bar>n\<bar>) \<le> 2 ^ 53"
  shows "sum_num (map num_of_int ns) = num_of_int (sum_list ns)"
  using reduce_add_safe [of 0 ns] assms by (simp add: sum_num_def num_of_int_0)

text \<open>
  Claim C3, as amended. For a sequence of integers whose absolute values add up to at most
  \<open>2^53\<close>, \<open>sum\<close> returns the exact total, so \<open>sum\<close> of the sequence and
  \<open>sum\<close> of the reversed sequence are the same number and compare equal with \<^verbatim>\<open>==\<close>.
\<close>

theorem sum_reverse_safe_integers:
  assumes "(\<Sum>n\<leftarrow>ns. \<bar>n\<bar>) \<le> 2 ^ 53"
  shows "sum_num (map num_of_int ns) = num_of_int (sum_list ns)
       \<and> sum_num (rev (map num_of_int ns)) = sum_num (map num_of_int ns)
       \<and> num_eq (sum_num (map num_of_int ns)) (sum_num (rev (map num_of_int ns)))"
proof -
  have a: "sum_num (map num_of_int ns) = num_of_int (sum_list ns)"
    using assms by (rule sum_num_safe)
  have "(\<Sum>n\<leftarrow>rev ns. \<bar>n\<bar>) \<le> 2 ^ 53" using assms by (simp flip: rev_map)
  then have "sum_num (map num_of_int (rev ns)) = num_of_int (sum_list (rev ns))"
    by (rule sum_num_safe)
  then have b: "sum_num (rev (map num_of_int ns)) = num_of_int (sum_list ns)"
    by (simp add: rev_map)
  have "\<bar>sum_list ns\<bar> \<le> (\<Sum>n\<leftarrow>ns. \<bar>n\<bar>)" by (rule sum_list_abs)
  with assms have "\<bar>sum_list ns\<bar> \<le> 2 ^ 53" by simp
  then have c: "num_of_int (sum_list ns) = Fin (sum_list ns * unit_scale)"
    by (rule num_of_int_safe)
  show ?thesis unfolding a b c by simp
qed

text \<open>The amended claim C3 at the arguments \<open>12, 24, -5\<close>.\<close>

theorem sum_reverse_safe_integers_witness:
  "(\<Sum>n\<leftarrow>[12, 24, -5]. \<bar>n\<bar>) \<le> (2 ^ 53 :: int)
   \<and> sum_num (map num_of_int [12, 24, -5]) = num_of_int 31
   \<and> sum_num (rev (map num_of_int [12, 24, -5])) = sum_num (map num_of_int [12, 24, -5])"
  using sum_reverse_safe_integers [of "[12, 24, -5]"] by simp

lemma round53_above_1: "round53 9007199254740993 = 9007199254740992"
proof -
  have "excess_bits 9007199254740993 = 1" by (simp add: excess_bits.simps)
  then show ?thesis by (simp add: round53_def)
qed

lemma round53_above_2: "round53 9007199254740994 = 9007199254740994"
proof -
  have "excess_bits 9007199254740994 = 1" by (simp add: excess_bits.simps)
  then show ?thesis by (simp add: round53_def)
qed

lemma num_of_int_above_1: "num_of_int 9007199254740993 = num_of_int 9007199254740992"
proof -
  have n: "nat 9007199254740993 = 9007199254740993" by simp
  have "num_of_int 9007199254740993 = Fin (int (round53 (nat 9007199254740993)) * unit_scale)"
    by (rule num_of_int_eval) (simp_all only: n round53_above_1, simp_all)
  also have "\<dots> = Fin (9007199254740992 * unit_scale)"
    by (simp only: n round53_above_1) simp
  also have "\<dots> = num_of_int 9007199254740992" by (rule num_of_int_safe [symmetric]) simp
  finally show ?thesis .
qed

lemma num_of_int_above_2: "num_of_int 9007199254740994 = Fin (9007199254740994 * unit_scale)"
proof -
  have n: "nat 9007199254740994 = 9007199254740994" by simp
  have "num_of_int 9007199254740994 = Fin (int (round53 (nat 9007199254740994)) * unit_scale)"
    by (rule num_of_int_eval) (simp_all only: n round53_above_2, simp_all)
  also have "\<dots> = Fin (9007199254740994 * unit_scale)"
    by (simp only: n round53_above_2) simp
  finally show ?thesis .
qed

text \<open>
  Claim C3 as stated fails. \<open>sum(2^53, 1, 1)\<close> is \<open>2^53\<close>, since \<open>2^53 + 1\<close> is a tie
  that rounds to the even significand \<open>2^53\<close>, twice; \<open>sum(1, 1, 2^53)\<close> is
  \<open>2^53 + 2\<close>. The two results are not \<^verbatim>\<open>==\<close>.
\<close>

theorem sum_reverse_counterexample:
  "\<not> num_eq (sum_num [num_of_int 9007199254740992, num_of_int 1, num_of_int 1])
            (sum_num (rev [num_of_int 9007199254740992, num_of_int 1, num_of_int 1]))"
proof -
  have s1: "num_add (Fin 0) (num_of_int 9007199254740992) = num_of_int 9007199254740992"
    using num_add_of_int [of 0 9007199254740992] by (simp add: num_of_int_0)
  have s2: "num_add (num_of_int 9007199254740992) (num_of_int 1) = num_of_int 9007199254740992"
    using num_add_of_int [of 9007199254740992 1] by (simp add: num_of_int_above_1)
  have l: "sum_num [num_of_int 9007199254740992, num_of_int 1, num_of_int 1]
      = num_of_int 9007199254740992"
    by (simp add: sum_num_def s1 s2)
  have t1: "num_add (Fin 0) (num_of_int 1) = num_of_int 1"
    using num_add_of_int [of 0 1] by (simp add: num_of_int_0)
  have t2: "num_add (num_of_int 1) (num_of_int 1) = num_of_int 2"
    using num_add_of_int [of 1 1] by simp
  have t3: "num_add (num_of_int 2) (num_of_int 9007199254740992) = num_of_int 9007199254740994"
    using num_add_of_int [of 2 9007199254740992] by simp
  have r: "sum_num (rev [num_of_int 9007199254740992, num_of_int 1, num_of_int 1])
      = num_of_int 9007199254740994"
    by (simp add: sum_num_def t1 t2 t3)
  have v: "num_of_int 9007199254740992 = Fin (9007199254740992 * unit_scale)"
    by (rule num_of_int_safe) simp
  have "\<not> num_eq (num_of_int 9007199254740992) (num_of_int 9007199254740994)"
    unfolding v num_of_int_above_2 using unit_scale_pos by simp
  then show ?thesis unfolding l r .
qed

text \<open>
  Claim C4. \<open>sum\<close> is the left fold of \<^verbatim>\<open>+\<close> over its arguments from \<open>0\<close>: it equals
  \<open>foldl\<close> of the addition, and one more argument at the end adds that argument to the
  total of the ones before it. Every argument is added, in the order given; as a function
  of the argument list the result is determined by it. The fold is the same for any
  operation \<open>f\<close> and initial value in place of \<^verbatim>\<open>+\<close> and \<open>0\<close>.
\<close>

theorem sum_is_left_fold:
  "sum_num xs = foldl num_add (Fin 0) xs
   \<and> sum_num (xs @ [x]) = num_add (sum_num xs) x
   \<and> reduce f ys init = foldl f init ys"
  by (simp add: sum_num_def reduce_foldl)

text \<open>Claim C5. \<open>sum\<close> of no arguments is \<open>+0\<close>, the number \<open>0\<close>.\<close>

theorem sum_empty: "sum_num [] = Fin 0 \<and> Fin 0 = num_of_int 0"
  by (simp add: sum_num_def num_of_int_0)

text \<open>
  Claim C6. For a binary64 value \<open>a\<close>, \<open>sum(a)\<close> is \<open>0 + a\<close>. For every \<open>a\<close> that is
  a number (not \<open>NaN\<close>) the result is \<^verbatim>\<open>==\<close> to \<open>a\<close>, and it is the very value \<open>a\<close>
  except for \<open>-0\<close>, where it is \<open>+0\<close> (and \<^verbatim>\<open>+0 == -0\<close>).
\<close>

theorem sum_singleton:
  assumes "is_double a"
  shows "(a \<noteq> NaN \<longrightarrow> num_eq (sum_num [a]) a) \<and> (a \<noteq> NegZero \<longrightarrow> sum_num [a] = a)"
proof (cases a)
  case (Fin k)
  with assms have "round_num k = Fin k" by (simp add: round_num_exact)
  with Fin show ?thesis by (simp add: sum_num_def)
qed (simp_all add: sum_num_def)

text \<open>Claim C6 at \<open>a = 7\<close>.\<close>

theorem sum_singleton_witness:
  "is_double (num_of_int 7) \<and> num_of_int 7 \<noteq> NaN \<and> num_eq (sum_num [num_of_int 7]) (num_of_int 7)
   \<and> sum_num [num_of_int 7] = num_of_int 7"
proof -
  have v: "num_of_int 7 = Fin (7 * unit_scale)" by (rule num_of_int_safe) simp
  have d: "is_double (num_of_int 7)" by (rule is_double_of_int) simp
  have n: "num_of_int 7 \<noteq> NaN" "num_of_int 7 \<noteq> NegZero" unfolding v by simp_all
  from sum_singleton [OF d] d n show ?thesis by blast
qed

section \<open>Properties of \<open>shift\<close>\<close>

lemma join_empty_sep: "join [] xs = concat xs"
  by (induction xs rule: induct_list012) simp_all

lemma spread_nonempty: "e \<in> set (spread s) \<Longrightarrow> e \<noteq> []"
  by (induction s rule: spread.induct) (auto split: if_splits)

lemma to_uint16_succ: "(word_of_int ((uint a + 1) mod 65536) :: 16 word) = a + 1"
  by (simp add: word_uint_eq_iff uint_word_of_int_eq uint_word_ariths take_bit_eq_mod)

lemma unat_succ: "u \<noteq> (0xFFFF :: 16 word) \<Longrightarrow> unat (u + 1) = Suc (unat u)"
proof -
  assume "u \<noteq> 0xFFFF"
  then have "unat u \<noteq> 65535" by (simp add: word_unat_eq_iff)
  moreover have "unat u < 65536" using unsigned_less [of u, where ?'a = nat] by simp
  ultimately show ?thesis by (simp add: unat_word_ariths)
qed

lemma succ_not_trail: "\<not> is_surrogate u \<Longrightarrow> \<not> is_trail (u + 1)"
proof -
  assume a: "\<not> is_surrogate u"
  have b: "unat u < 65536" using unsigned_less [of u, where ?'a = nat] by simp
  from a have "unat u < 0xD800 \<or> 0xDFFF < unat u"
    by (simp add: is_surrogate_def is_lead_def is_trail_def word_le_nat_alt) arith
  with b have "(unat u + 1) mod 65536 < 0xDC00 \<or> 0xDFFF < (unat u + 1) mod 65536"
    by (cases "unat u = 65535") auto
  then show ?thesis
    by (simp add: is_trail_def word_le_nat_alt unat_word_ariths) arith
qed

lemma shift_callback_hd: "e \<noteq> [] \<Longrightarrow> shift_callback e = [hd e + 1]"
  by (cases e) (simp_all add: shift_callback_def charCodeAt_def fromCharCode_def to_uint16_succ)

lemma shift_map: "shift s = map (\<lambda>e. hd e + 1) (spread s)"
proof -
  have "concat (map shift_callback xs) = map (\<lambda>e. hd e + 1) xs" if "\<forall>e\<in>set xs. e \<noteq> []" for xs
    using that by (induction xs) (simp_all add: shift_callback_hd)
  then show ?thesis by (simp add: shift_def join_empty_sep spread_nonempty)
qed

lemma spread_no_trail: "(\<forall>u\<in>set s. \<not> is_trail u) \<Longrightarrow> spread s = map (\<lambda>u. [u]) s"
  by (induction s rule: spread.induct) simp_all



text \<open>
  Claim C1, as amended. For a string \<open>s\<close> none of whose code units is a surrogate or
  \<open>0xFFFF\<close>, \<open>shift s\<close> has the length of \<open>s\<close> and its code points are those of \<open>s\<close>,
  each plus one. \<open>shift "a"\<close> is \<open>"b"\<close> and \<open>shift ""\<close> is \<open>""\<close>.
\<close>

theorem shift_plus_one:
  "((\<forall>u\<in>set s. \<not> is_surrogate u \<and> u \<noteq> 0xFFFF) \<longrightarrow>
      length (shift s) = length s \<and> code_points (shift s) = map Suc (code_points s))
   \<and> shift (js ''a'') = js ''b'' \<and> shift (js '''') = js ''''"
proof (intro conjI impI)
  assume a: "\<forall>u\<in>set s. \<not> is_surrogate u \<and> u \<noteq> 0xFFFF"
  then have "\<forall>u\<in>set s. \<not> is_trail u" by (simp add: is_surrogate_def)
  then have sp: "spread s = map (\<lambda>u. [u]) s" by (rule spread_no_trail)
  then have sh: "shift s = map (\<lambda>u. u + 1) s" by (simp add: shift_map comp_def)
  then show "length (shift s) = length s" by simp
  from a have "\<forall>u\<in>set (shift s). \<not> is_trail u" by (simp add: sh succ_not_trail)
  then have "spread (shift s) = map (\<lambda>u. [u]) (shift s)" by (rule spread_no_trail)
  then have "code_points (shift s) = map (\<lambda>u. unat (u + 1)) s"
    by (simp add: code_points_def code_point_def sh comp_def)
  also have "\<dots> = map (\<lambda>u. Suc (unat u)) s"
    by (rule map_cong) (simp_all add: a unat_succ)
  also have "\<dots> = map Suc (code_points s)"
    by (simp add: code_points_def code_point_def sp comp_def)
  finally show "code_points (shift s) = map Suc (code_points s)" .
next
  show "shift (js ''a'') = js ''b''" by (simp add: shift_map js_def)
next
  show "shift (js '''') = js ''''" by (simp add: shift_map js_def)
qed

text \<open>
  The numbers that \<open>shift\<close> adds are exact in binary64: for a code unit \<open>c\<close>, the
  number \<open>c + 1\<close> computed by \<^verbatim>\<open>+\<close> is the integer \<open>c + 1\<close>.
\<close>

lemma char_code_succ_exact:
  assumes "0 \<le> c" and "c \<le> 65535"
  shows "num_add (num_of_int c) (num_of_int 1) = num_of_int (c + 1)"
    and "num_of_int (c + 1) = Fin ((c + 1) * unit_scale)"
proof -
  from assms have "\<bar>c\<bar> \<le> 2 ^ 53" by simp
  then show "num_add (num_of_int c) (num_of_int 1) = num_of_int (c + 1)"
    by (rule num_add_of_int) simp
  from assms have "\<bar>c + 1\<bar> \<le> 2 ^ 53" by simp
  then show "num_of_int (c + 1) = Fin ((c + 1) * unit_scale)" by (rule num_of_int_safe)
qed

lemma js_hello: "js ''Hello, World!'' = [72, 101, 108, 108, 111, 44, 32, 87, 111, 114, 108, 100, 33]"
  by (simp add: js_def)

lemma js_shifted: "js ''Ifmmp-!Xpsme\"'' = [73, 102, 109, 109, 112, 45, 33, 88, 112, 115, 109, 101, 34]"
  by (simp add: js_def)

text \<open>
  The amended claim C1 at \<open>"Hello, World!"\<close>, the argument that the client script passes;
  the result is \<open>"Ifmmp-!Xpsme""\<close>.
\<close>

theorem shift_plus_one_witness:
  "list_all (\<lambda>u. \<not> is_surrogate u \<and> u \<noteq> 0xFFFF) (js ''Hello, World!'')
   \<and> length (shift (js ''Hello, World!'')) = length (js ''Hello, World!'')
   \<and> code_points (shift (js ''Hello, World!'')) = map Suc (code_points (js ''Hello, World!''))
   \<and> shift (js ''Hello, World!'') = js ''Ifmmp-!Xpsme\"''"
proof -
  have h: "\<forall>u\<in>set (js ''Hello, World!''). \<not> is_surrogate u \<and> u \<noteq> 0xFFFF"
    unfolding js_hello by (simp add: is_surrogate_def is_lead_def is_trail_def)
  have e: "shift (js ''Hello, World!'') = js ''Ifmmp-!Xpsme\"''"
    unfolding js_hello js_shifted by (simp add: shift_map is_lead_def is_trail_def)
  from shift_plus_one [of "js ''Hello, World!''"] h e show ?thesis
    by (simp add: list_all_iff)
qed

text \<open>
  Claim C1 as stated fails. The string of the one code point \<open>U+1F600\<close> has the two code
  units \<open>D83D DE00\<close>; \<open>shift\<close> returns the single code unit \<open>D83E\<close>, which is shorter and
  is not the code point \<open>U+1F601\<close>. The string of the code point \<open>U+FFFF\<close> is mapped to
  the code point \<open>0\<close>, not \<open>0x10000\<close>.
\<close>

theorem shift_plus_one_counterexample:
  "code_points [0xD83D, 0xDE00] = [0x1F600]
   \<and> shift [0xD83D, 0xDE00] = [0xD83E]
   \<and> length (shift [0xD83D, 0xDE00]) \<noteq> length [0xD83D, 0xDE00 :: 16 word]
   \<and> code_points (shift [0xD83D, 0xDE00]) \<noteq> map Suc (code_points [0xD83D, 0xDE00])
   \<and> shift [0xFFFF] = [0]
   \<and> code_points (shift [0xFFFF]) \<noteq> map Suc (code_points [0xFFFF])"
  by (simp add: shift_map code_points_def code_point_def is_lead_def is_trail_def)

text \<open>
  Claim C7, as amended. \<open>shift s\<close> has as many code units as \<open>s\<close> has code points. When
  no code unit of \<open>s\<close> is a surrogate, \<open>shift s\<close> and \<open>s\<close> have the same length, counted
  in code points and counted in code units.
\<close>

theorem shift_length:
  "length (shift s) = cp_length s
   \<and> ((\<forall>u\<in>set s. \<not> is_surrogate u) \<longrightarrow>
        cp_length (shift s) = cp_length s \<and> length (shift s) = length s)"
proof (intro conjI impI)
  show "length (shift s) = cp_length s" by (simp add: shift_map cp_length_def)
next
  assume a: "\<forall>u\<in>set s. \<not> is_surrogate u"
  then have "\<forall>u\<in>set s. \<not> is_trail u" by (simp add: is_surrogate_def)
  then have sp: "spread s = map (\<lambda>u. [u]) s" by (rule spread_no_trail)
  then have sh: "shift s = map (\<lambda>u. u + 1) s" by (simp add: shift_map comp_def)
  from a have "\<forall>u\<in>set (shift s). \<not> is_trail u" by (simp add: sh succ_not_trail)
  then have "spread (shift s) = map (\<lambda>u. [u]) (shift s)" by (rule spread_no_trail)
  then show "cp_length (shift s) = cp_length s" by (simp add: cp_length_def sp sh)
  show "length (shift s) = length s" by (simp add: sh)
qed

text \<open>The amended claim C7 at a string of three characters of the basic plane.\<close>

theorem shift_length_witness:
  "list_all (\<lambda>u. \<not> is_surrogate u) [0x4E2D, 0x6587, 0xFFFF]
   \<and> cp_length (shift [0x4E2D, 0x6587, 0xFFFF]) = cp_length [0x4E2D, 0x6587, 0xFFFF]
   \<and> cp_length (shift [0x4E2D, 0x6587, 0xFFFF]) = 3"
proof -
  have h: "\<forall>u\<in>set [0x4E2D, 0x6587, 0xFFFF]. \<not> is_surrogate u"
    by (simp add: is_surrogate_def is_lead_def is_trail_def)
  have "cp_length [0x4E2D, 0x6587, 0xFFFF] = 3"
    by (simp add: cp_length_def is_lead_def)
  with shift_length [of "[0x4E2D, 0x6587, 0xFFFF]"] h show ?thesis by simp
qed

text \<open>
  Claim C7 as stated fails. The well-formed string \<open>D7FF DBFF DC00\<close> has the two scalar
  values \<open>U+D7FF\<close> and \<open>U+10FC00\<close>; \<open>shift\<close> returns \<open>D800 DC00\<close>, the well-formed
  string of the single scalar value \<open>U+10000\<close>.
\<close>

theorem shift_length_counterexample:
  "cp_length (shift [0xD7FF, 0xDBFF, 0xDC00]) \<noteq> cp_length [0xD7FF, 0xDBFF, 0xDC00]
   \<and> well_formed [0xD7FF, 0xDBFF, 0xDC00]
   \<and> cp_length [0xD7FF, 0xDBFF, 0xDC00] = 2
   \<and> shift [0xD7FF, 0xDBFF, 0xDC00] = [0xD800, 0xDC00]
   \<and> well_formed (shift [0xD7FF, 0xDBFF, 0xDC00])
   \<and> cp_length (shift [0xD7FF, 0xDBFF, 0xDC00]) = 1"
  by (simp add: shift_map cp_length_def well_formed_def is_surrogate_def is_lead_def is_trail_def)

text \<open>
  Claim C10. \<open>shift\<close> returns one code unit for each iterated character: the first code
  unit of that character plus one, modulo \<open>2^16\<close>. Where the first code unit is
  \<open>0xFFFF\<close> the output code unit is \<open>0\<close>. A surrogate pair \<open>h l\<close> is iterated as one
  character and yields \<open>h + 1\<close>, whatever \<open>l\<close> is.
\<close>

theorem shift_first_code_unit:
  "length (shift s) = length (spread s)
   \<and> (\<forall>i<length (spread s).
         unat (shift s ! i) = (unat (hd (spread s ! i)) + 1) mod 65536
       \<and> (hd (spread s ! i) = 0xFFFF \<longrightarrow> shift s ! i = 0))
   \<and> (is_lead h \<and> is_trail l \<longrightarrow>
         spread (h # l # rest) = [h, l] # spread rest
       \<and> shift (h # l # rest) = (h + 1) # shift rest)"
  by (simp add: shift_map unat_word_ariths)

text \<open>Claim C10 at the string \<open>0061 FFFF D83D DE00\<close> and at the pair \<open>D83D DE00\<close>.\<close>

theorem shift_first_code_unit_witness:
  "is_lead 0xD83D \<and> is_trail 0xDE00
   \<and> spread [0x61, 0xFFFF, 0xD83D, 0xDE00] = [[0x61], [0xFFFF], [0xD83D, 0xDE00]]
   \<and> shift [0x61, 0xFFFF, 0xD83D, 0xDE00] ! 1 = 0
   \<and> shift [0xD83D, 0xDE00] = [0xD83E]"
proof -
  have a: "is_lead 0xD83D \<and> is_trail 0xDE00" by (simp add: is_lead_def is_trail_def)
  have b: "spread [0x61, 0xFFFF, 0xD83D, 0xDE00] = [[0x61], [0xFFFF], [0xD83D, 0xDE00]]"
    by (simp add: is_lead_def is_trail_def)
  note t = shift_first_code_unit [of "[0x61, 0xFFFF, 0xD83D, 0xDE00]" "0xD83D" "0xDE00" "[]"]
  from t have "\<forall>i<length (spread [0x61, 0xFFFF, 0xD83D, 0xDE00]).
      hd (spread [0x61, 0xFFFF, 0xD83D, 0xDE00] ! i) = 0xFFFF
        \<longrightarrow> shift [0x61, 0xFFFF, 0xD83D, 0xDE00] ! i = 0"
    by blast
  then have c: "shift [0x61, 0xFFFF, 0xD83D, 0xDE00] ! 1 = 0"
    unfolding b by simp
  from t a have "shift [0xD83D, 0xDE00] = [0xD83D + 1] @ shift []" by simp
  then have d: "shift [0xD83D, 0xDE00] = [0xD83E]" by (simp add: shift_map)
  from a b c d show ?thesis by blast
qed

section \<open>Properties of the page server\<close>

text \<open>The three layers, one after the other.\<close>

lemma handle_unfold:
  "handle env req =
     (case use_public env req of
        Respond r \<Rightarrow> r
      | Pass ms \<Rightarrow>
          (case get_star serveCatchAll env req of
             Respond r \<Rightarrow> r
           | Pass ns \<Rightarrow> (if req_method req = OPTIONS \<and> ms @ ns \<noteq> [] then SentAllow (ms @ ns) else ErrorPage 404)
           | Fail status \<Rightarrow> ErrorPage status)
      | Fail status \<Rightarrow> ErrorPage status)"
  by (simp add: handle_def app_def morgan_dev_def split: step.splits)

lemma mounted_public_1: "mounted_at ''/public'' ''/public/missing.js'' = Some ''/missing.js''"
  by (simp add: mounted_at_def lower_def Let_def)

lemma mounted_public_2: "mounted_at ''/public'' ''/public/app.js'' = Some ''/app.js''"
  by (simp add: mounted_at_def lower_def Let_def)

lemma mounted_public_3: "mounted_at ''/public'' ''/'' = None"
  by (simp add: mounted_at_def lower_def Let_def)


lemma use_public_outside:
  "mounted_at ''/public'' (req_path req) = None \<Longrightarrow> use_public env req = Pass []"
  by (simp add: use_public_def)

lemma express_static_no_html: "express_static rel env req \<noteq> Respond (SentHtml h)"
  by (simp add: express_static_def split: fs_entry.splits)

lemma use_public_no_html: "use_public env req \<noteq> Respond (SentHtml h)"
  by (simp add: use_public_def express_static_no_html split: option.splits)

lemma express_static_cases:
  "(\<exists>r. express_static rel env req = Respond r) \<or> express_static rel env req = Pass []"
  by (simp add: express_static_def split: fs_entry.splits)

lemma use_public_cases:
  "(\<exists>r. use_public env req = Respond r) \<or> use_public env req = Pass []"
  by (simp add: use_public_def express_static_cases split: option.splits)

text \<open>
  Claim C2, as amended. The handler ignores the request and renders the template
  \<^verbatim>\<open>index\<close> without template variables. It is registered for \<^verbatim>\<open>GET\<close> (which also serves
  \<^verbatim>\<open>HEAD\<close>): every such request that the static middleware has passed on and whose path
  decodes is answered by it, with the rendered template, status 200 and the content type
  \<^verbatim>\<open>text/html; charset=utf-8\<close> when the template renders, and with status 500 when it does
  not. The static middleware passes on every request for a path outside \<^verbatim>\<open>/public\<close>.
  Every rendered document that the server sends is that rendering, sent to a \<^verbatim>\<open>GET\<close> or
  \<^verbatim>\<open>HEAD\<close> request that the static middleware has passed on.
\<close>

theorem serveCatchAll_renders_index:
  "serveCatchAll env req = serveCatchAll env req'
   \<and> (render_file env ''index'' [] = Some html \<longrightarrow>
        serveCatchAll env req = Respond (SentHtml html))
   \<and> ((req_method req = GET \<or> req_method req = HEAD)
        \<and> uri_decodes env (req_path req)
        \<and> use_public env req = Pass ms
        \<and> render_file env ''index'' [] = Some html \<longrightarrow>
        handle env req = SentHtml html
        \<and> status_code (handle env req) = 200
        \<and> content_type env (handle env req) = ''text/html; charset=utf-8'')
   \<and> ((req_method req = GET \<or> req_method req = HEAD)
        \<and> uri_decodes env (req_path req)
        \<and> use_public env req = Pass ms
        \<and> render_file env ''index'' [] = None \<longrightarrow>
        handle env req = ErrorPage 500)
   \<and> (mounted_at ''/public'' (req_path req) = None \<longrightarrow> use_public env req = Pass [])
   \<and> ((req_method req = GET \<or> req_method req = HEAD)
        \<and> uri_decodes env (req_path req)
        \<and> mounted_at ''/public'' (req_path req) = None
        \<and> render_file env ''index'' [] = Some html \<longrightarrow>
        handle env req = SentHtml html
        \<and> status_code (handle env req) = 200
        \<and> content_type env (handle env req) = ''text/html; charset=utf-8'')
   \<and> (handle env req = SentHtml html \<longrightarrow>
        render_file env ''index'' [] = Some html
        \<and> (req_method req = GET \<or> req_method req = HEAD)
        \<and> use_public env req = Pass [])"
proof -
  have passed: "handle env req = SentHtml h"
    if "req_method req = GET \<or> req_method req = HEAD" and "uri_decodes env (req_path req)"
      and "use_public env req = Pass ns" and "render_file env ''index'' [] = Some h"
    for ns h
    using that by (auto simp: handle_unfold get_star_def serveCatchAll_def)
  have failed: "handle env req = ErrorPage 500"
    if "req_method req = GET \<or> req_method req = HEAD" and "uri_decodes env (req_path req)"
      and "use_public env req = Pass ns" and "render_file env ''index'' [] = None"
    for ns
    using that by (auto simp: handle_unfold get_star_def serveCatchAll_def)
  show ?thesis
  proof (intro conjI impI)
    show "serveCatchAll env req = serveCatchAll env req'"
      by (simp add: serveCatchAll_def)
  next
    assume "render_file env ''index'' [] = Some html"
    then show "serveCatchAll env req = Respond (SentHtml html)"
      by (simp add: serveCatchAll_def)
  next
    assume a: "(req_method req = GET \<or> req_method req = HEAD)
        \<and> uri_decodes env (req_path req)
        \<and> use_public env req = Pass ms
        \<and> render_file env ''index'' [] = Some html"
    then show h: "handle env req = SentHtml html" by (blast intro: passed)
    show "status_code (handle env req) = 200" unfolding h by simp
    show "content_type env (handle env req) = ''text/html; charset=utf-8''" unfolding h by simp
  next
    assume "(req_method req = GET \<or> req_method req = HEAD)
        \<and> uri_decodes env (req_path req)
        \<and> use_public env req = Pass ms
        \<and> render_file env ''index'' [] = None"
    then show "handle env req = ErrorPage 500" by (blast intro: failed)
  next
    assume "mounted_at ''/public'' (req_path req) = None"
    then show "use_public env req = Pass []" by (rule use_public_outside)
  next
    assume a: "(req_method req = GET \<or> req_method req = HEAD)
        \<and> uri_decodes env (req_path req)
        \<and> mounted_at ''/public'' (req_path req) = None
        \<and> render_file env ''index'' [] = Some html"
    then have "use_public env req = Pass []" by (simp add: use_public_outside)
    with a show h: "handle env req = SentHtml html" by (blast intro: passed)
    show "status_code (handle env req) = 200" unfolding h by simp
    show "content_type env (handle env req) = ''text/html; charset=utf-8''" unfolding h by simp
  next
    assume h: "handle env req = SentHtml html"
    from use_public_cases [of env req] show p: "use_public env req = Pass []"
    proof
      assume "\<exists>r. use_public env req = Respond r"
      then obtain r where r: "use_public env req = Respond r" ..
      with h have "r = SentHtml html" by (simp add: handle_unfold)
      with r use_public_no_html [of env req html] show ?thesis by simp
    qed
    with h show "render_file env ''index'' [] = Some html"
      by (auto simp: handle_unfold get_star_def serveCatchAll_def split: if_splits option.splits)
    from p h show "req_method req = GET \<or> req_method req = HEAD"
      by (auto simp: handle_unfold get_star_def serveCatchAll_def split: if_splits option.splits)
  qed
qed

text \<open>
  The amended claim C2 at the request \<^verbatim>\<open>HEAD /public/missing.js\<close>, which the static
  middleware passes on, and at the request \<^verbatim>\<open>GET /anything/at/all\<close>.
\<close>

theorem serveCatchAll_renders_index_witness:
  "use_public demo_env \<lparr>req_method = HEAD, req_path = ''/public/missing.js''\<rparr> = Pass []
   \<and> handle demo_env \<lparr>req_method = HEAD, req_path = ''/public/missing.js''\<rparr>
       = SentHtml ''<div id=app></div>''
   \<and> status_code (handle demo_env \<lparr>req_method = HEAD, req_path = ''/public/missing.js''\<rparr>)
       = 200
   \<and> content_type demo_env
         (handle demo_env \<lparr>req_method = HEAD, req_path = ''/public/missing.js''\<rparr>)
       = ''text/html; charset=utf-8''
   \<and> mounted_at ''/public'' ''/anything/at/all'' = None
   \<and> handle demo_env \<lparr>req_method = GET, req_path = ''/anything/at/all''\<rparr>
       = SentHtml ''<div id=app></div>''
   \<and> render_file demo_env ''index'' [] = Some ''<div id=app></div>''"
proof -
  have u: "use_public demo_env \<lparr>req_method = HEAD, req_path = ''/public/missing.js''\<rparr> = Pass []"
    by (simp add: use_public_def mounted_public_1 express_static_def ends_with_slash_def
        demo_env_def)
  have m: "mounted_at ''/public'' ''/anything/at/all'' = None"
    by (simp add: mounted_at_def lower_def Let_def)
  have r: "render_file demo_env ''index'' [] = Some ''<div id=app></div>''"
    by (simp add: demo_env_def)
  have d: "uri_decodes demo_env p" for p by (simp add: demo_env_def)
  from serveCatchAll_renders_index
    [of demo_env "\<lparr>req_method = HEAD, req_path = ''/public/missing.js''\<rparr>" _
      "''<div id=app></div>''" "[]"]
    u r d
  have a: "handle demo_env \<lparr>req_method = HEAD, req_path = ''/public/missing.js''\<rparr>
        = SentHtml ''<div id=app></div>''
      \<and> status_code (handle demo_env \<lparr>req_method = HEAD, req_path = ''/public/missing.js''\<rparr>)
        = 200
      \<and> content_type demo_env
          (handle demo_env \<lparr>req_method = HEAD, req_path = ''/public/missing.js''\<rparr>)
        = ''text/html; charset=utf-8''"
    by simp
  from serveCatchAll_renders_index
    [of demo_env "\<lparr>req_method = GET, req_path = ''/anything/at/all''\<rparr>" _
      "''<div id=app></div>''"]
    m r d
  have b: "handle demo_env \<lparr>req_method = GET, req_path = ''/anything/at/all''\<rparr>
        = SentHtml ''<div id=app></div>''"
    by simp
  from u a m b r show ?thesis by blast
qed

text \<open>
  Claim C2 as stated fails. A \<^verbatim>\<open>POST\<close> request does not reach the handler and is
  answered with 404, and a \<^verbatim>\<open>GET\<close> request for an existing file under \<^verbatim>\<open>/public\<close> is
  answered with the file, not with the template.
\<close>

theorem serveCatchAll_counterexample:
  "handle demo_env \<lparr>req_method = POST, req_path = ''/''\<rparr> = ErrorPage 404
   \<and> handle demo_env \<lparr>req_method = GET, req_path = ''/public/app.js''\<rparr>
       = SentFile ''/app.js'' [0x2F, 0x2F]
   \<and> render_file demo_env ''index'' [] = Some ''<div id=app></div>''"
  by (simp add: handle_unfold use_public_def mounted_public_2 mounted_public_3 express_static_def
      ends_with_slash_def demo_env_def get_star_def serveCatchAll_def)




section \<open>Properties of the client bootstrap\<close>

lemma append_in_None:
  "append_in i new n = None \<longleftrightarrow> children_by_id i n = None"
  "append_in_list i new ns = None \<longleftrightarrow> children_by_id_list i ns = None"
  by (induction i new n and i new ns rule: append_in_append_in_list.induct)
    (auto split: option.splits)

lemma append_in_Some:
  "append_in i new n = Some n' \<Longrightarrow>
     children_by_id i n' = map_option (\<lambda>cs. cs @ [new]) (children_by_id i n)"
  "append_in_list i new ns = Some ns' \<Longrightarrow>
     children_by_id_list i ns' = map_option (\<lambda>cs. cs @ [new]) (children_by_id_list i ns)"
proof (induction i new n and i new ns arbitrary: n' and ns' rule: append_in_append_in_list.induct)
  case (1 i new t)
  then show ?case by simp
next
  case (2 i new tag eid cs)
  then show ?case by (auto split: if_splits)
next
  case (3 i new)
  then show ?case by simp
next
  case (4 i new c cs)
  show ?case
  proof (cases "append_in i new c")
    case None
    with "4.prems" obtain cs' where cs': "append_in_list i new cs = Some cs'" and ns': "ns' = c # cs'"
      by auto
    from None have "children_by_id i c = None" by (simp add: append_in_None)
    with "4.IH"(2) [OF None cs'] ns' show ?thesis by simp
  next
    case (Some c')
    with "4.prems" have ns': "ns' = c' # cs" by simp
    from Some have "children_by_id i c \<noteq> None" using append_in_None(1) [of i new c] by simp
    then obtain found where f: "children_by_id i c = Some found" by auto
    with "4.IH"(1) [OF Some] ns' show ?thesis by simp
  qed
qed

lemma append_by_id_children:
  "children_by_id i (append_by_id i new page) = map_option (\<lambda>cs. cs @ [new]) (children_by_id i page)"
proof (cases "append_in i new page")
  case None
  then have "children_by_id i page = None" using append_in_None(1) [of i new page] by simp
  then show ?thesis unfolding append_by_id_def None by simp
next
  case (Some page')
  from append_in_Some(1) [OF Some] show ?thesis unfolding append_by_id_def Some by simp
qed

lemma append_by_id_absent:
  assumes "children_by_id i page = None"
  shows "append_by_id i new page = page"
proof -
  from assms have "append_in i new page = None" using append_in_None(1) [of i new page] by simp
  then show ?thesis unfolding append_by_id_def by simp
qed


lemma count_tag_list_append: "count_tag_list t (xs @ ys) = count_tag_list t xs + count_tag_list t ys"
  by (induction xs) simp_all

lemma append_in_count:
  "append_in i new n = Some n' \<Longrightarrow> count_tag t n' = count_tag t n + count_tag t new"
  "append_in_list i new ns = Some ns' \<Longrightarrow>
     count_tag_list t ns' = count_tag_list t ns + count_tag t new"
  by (induction i new n and i new ns arbitrary: n' and ns' rule: append_in_append_in_list.induct)
    (auto simp: count_tag_list_append split: if_splits option.splits)

lemma append_by_id_count:
  assumes "children_by_id i page = Some cs"
  shows "count_tag t (append_by_id i new page) = count_tag t page + count_tag t new"
proof -
  from assms have "append_in i new page \<noteq> None" using append_in_None(1) [of i new page] by simp
  then obtain page' where p: "append_in i new page = Some page'" by auto
  from append_in_count(1) [OF p] show ?thesis unfolding append_by_id_def p by simp
qed


text \<open>
  The total that the script displays: the thirteen small arguments add up to \<open>435\<close>,
  which is lost when the last argument is added, so the total is the binary64 value of
  the literal \<open>89381759823749183247\<close> itself.
\<close>

lemma round53_literal: "round53 89381759823749183247 = 89381759823749185536"
proof -
  have "excess_bits 89381759823749183247 = 14" by (simp add: excess_bits.simps)
  then show ?thesis by (simp add: round53_def)
qed

lemma round53_total: "round53 89381759823749185971 = 89381759823749185536"
proof -
  have "excess_bits 89381759823749185971 = 14" by (simp add: excess_bits.simps)
  then show ?thesis by (simp add: round53_def)
qed

lemma num_of_int_literal:
  "num_of_int 89381759823749183247 = Fin (89381759823749185536 * unit_scale)"
proof -
  have n: "nat 89381759823749183247 = 89381759823749183247" by simp
  have "num_of_int 89381759823749183247
      = Fin (int (round53 (nat 89381759823749183247)) * unit_scale)"
    by (rule num_of_int_eval) (simp_all only: n round53_literal, simp_all)
  then show ?thesis by (simp only: n round53_literal) simp
qed

lemma num_of_int_total:
  "num_of_int 89381759823749185971 = Fin (89381759823749185536 * unit_scale)"
proof -
  have n: "nat 89381759823749185971 = 89381759823749185971" by simp
  have "num_of_int 89381759823749185971
      = Fin (int (round53 (nat 89381759823749185971)) * unit_scale)"
    by (rule num_of_int_eval) (simp_all only: n round53_total, simp_all)
  then show ?thesis by (simp only: n round53_total) simp
qed

lemma sum_numArr: "sum_num numArr = num_of_int 89381759823749183247"
proof -
  have "sum_num numArr =
      reduce (\<lambda>a b. num_add a b) [num_of_int 89381759823749183247]
        (sum_num (map num_of_int [12, 24, 5, 7, 8, 9, 5, 4, 345, 6, 7, 2, 1]))"
    by (simp add: sum_num_def numArr_def)
  also have "sum_num (map num_of_int [12, 24, 5, 7, 8, 9, 5, 4, 345, 6, 7, 2, 1]) = num_of_int 435"
    using sum_num_safe [of "[12, 24, 5, 7, 8, 9, 5, 4, 345, 6, 7, 2, 1]"] by simp
  also have "num_of_int 435 = Fin (435 * unit_scale)" by (rule num_of_int_safe) simp
  also have "reduce (\<lambda>a b. num_add a b) [num_of_int 89381759823749183247] (Fin (435 * unit_scale))
      = round_num (435 * unit_scale + 89381759823749185536 * unit_scale)"
    by (simp add: num_of_int_literal)
  also have "435 * unit_scale + 89381759823749185536 * unit_scale = 89381759823749185971 * unit_scale"
    by simp
  also have "round_num (89381759823749185971 * unit_scale) = num_of_int 89381759823749185971"
    by (simp add: num_of_int_def)
  finally show ?thesis by (simp only: num_of_int_total num_of_int_literal)
qed

lemma shift_hello: "shift (js ''Hello, World!'') = js ''Ifmmp-!Xpsme\"''"
  by (simp add: js_def shift_map is_lead_def is_trail_def)

text \<open>
  Claim C9. On a page that has the mount element \<^verbatim>\<open>#app\<close>, the script leaves the mount
  element with its former children followed by two new ones: first the paragraph with the
  text about \<open>shift\<close>, then the paragraph with the text about \<open>sum\<close>; the page has exactly
  two paragraph elements more than before. On a page without the mount element nothing is
  appended. The texts are the ones computed from \<open>shift\<close> and \<open>sum\<close>.
\<close>

theorem bootstrap_appends_in_order:
  "(children_by_id ''app'' page = Some cs \<longrightarrow>
      children_by_id ''app'' (bootstrap to_string page)
        = Some (cs @ [shiftElement, sumElement to_string])
      \<and> count_tag ''p'' (bootstrap to_string page) = count_tag ''p'' page + 2)
   \<and> (children_by_id ''app'' page = None \<longrightarrow> bootstrap to_string page = page)
   \<and> shiftElement = Element ''p'' None [Text (js ''Hello, World! shifts to Ifmmp-!Xpsme\"'')]
   \<and> sumElement to_string =
       Element ''p'' None
         [Text (js ''The sum of \"'' @ join (js '' + '') (map to_string numArr)
                @ js ''\" is '' @ to_string (sum_num numArr))]"
proof (intro conjI impI)
  assume a: "children_by_id ''app'' page = Some cs"
  then show "children_by_id ''app'' (bootstrap to_string page)
      = Some (cs @ [shiftElement, sumElement to_string])"
    by (simp add: bootstrap_def append_by_id_children)
  from a have b: "children_by_id ''app'' (append_by_id ''app'' shiftElement page)
      = Some (cs @ [shiftElement])"
    by (simp add: append_by_id_children)
  have "count_tag ''p'' shiftElement = 1"
    by (simp add: shiftElement_def create_element_def)
  moreover have "count_tag ''p'' (sumElement to_string) = 1"
    by (simp add: sumElement_def create_element_def)
  ultimately show "count_tag ''p'' (bootstrap to_string page) = count_tag ''p'' page + 2"
    unfolding bootstrap_def
    by (simp add: append_by_id_count [OF b] append_by_id_count [OF a])
next
  assume "children_by_id ''app'' page = None"
  then show "bootstrap to_string page = page"
    by (simp add: bootstrap_def append_by_id_absent)
next
  show "shiftElement = Element ''p'' None [Text (js ''Hello, World! shifts to Ifmmp-!Xpsme\"'')]"
    by (simp add: shiftElement_def shiftText_def create_element_def shift_hello) (simp add: js_def)
next
  show "sumElement to_string =
       Element ''p'' None
         [Text (js ''The sum of \"'' @ join (js '' + '') (map to_string numArr)
                @ js ''\" is '' @ to_string (sum_num numArr))]"
    by (simp add: sumElement_def create_element_def js_def)
qed

text \<open>Claim C9 on a page whose body holds the empty mount element.\<close>

theorem bootstrap_appends_in_order_witness:
  "children_by_id ''app''
     (Element ''html'' None
        [Element ''head'' None [], Element ''body'' None [Element ''div'' (Some ''app'') []]])
     = Some []
   \<and> children_by_id ''app''
       (bootstrap (\<lambda>n. js ''0'')
          (Element ''html'' None
             [Element ''head'' None [], Element ''body'' None [Element ''div'' (Some ''app'') []]]))
     = Some [shiftElement, sumElement (\<lambda>n. js ''0'')]"
  using bootstrap_appends_in_order
    [of "Element ''html'' None
        [Element ''head'' None [], Element ''body'' None [Element ''div'' (Some ''app'') []]]"
        "[]" "\<lambda>n. js ''0''"]
  by simp

end
